theory Spec2Isabelle
  imports Complex_Main "HOL-Library.AList"
begin

section \<open>Metadata parser of the LISS4 notebook\<close>

text \<open>
  The cell of \<^verbatim>\<open>xarray_liss4_processing.ipynb\<close> that reads \<^verbatim>\<open>BAND_META.txt\<close>:
  \<^verbatim>\<open>
  metadata = {}
  with open(metadata_filepath) as f:
    for line in f:
      key, value = line.split('=')
      metadata[key.strip()] = value.strip()
  \<close>
  A Python string is modelled as a \<open>string\<close> whose characters are the code points below
  256. The dictionary is an association list in insertion order: assigning to a key that is
  present replaces its value in place, assigning to a new key appends it, which is what
  \<open>AList.update\<close> does. The \<open>ValueError\<close> raised by the two-target unpacking is a value of
  type \<open>error\<close>, and the loop stops at the first one. Nothing catches the exception, and
  \<open>metadata\<close> is a module-level name filled in place: when the loop raises, the
  dictionary keeps what the lines before the failing one have stored. So the outcome of
  the cell is either the finished dictionary (\<open>Inr\<close>) or the error together with the
  dictionary as the raise leaves it (\<open>Inl\<close>).
\<close>

datatype error =
  NotEnoughValues nat   \<comment> \<open>ValueError: not enough values to unpack (expected 2, got n)\<close>
| TooManyValues         \<comment> \<open>ValueError: too many values to unpack (expected 2)\<close>

type_synonym dict = "(string \<times> string) list"

text \<open>\<^verbatim>\<open>str.isspace\<close> on one code point below 256: tab to carriage return, the four
  separators 0x1C to 0x1F, space, next line (0x85) and no-break space (0xA0).\<close>

definition isspace :: "char \<Rightarrow> bool" where
  "isspace c =
     (let n = (of_char c :: nat)
      in (9 \<le> n \<and> n \<le> 13) \<or> (28 \<le> n \<and> n \<le> 32) \<or> n = 133 \<or> n = 160)"

text \<open>\<^verbatim>\<open>str.strip()\<close> without argument removes leading and trailing whitespace.\<close>

definition lstrip :: "string \<Rightarrow> string" where
  "lstrip s = dropWhile isspace s"

definition rstrip :: "string \<Rightarrow> string" where
  "rstrip s = rev (dropWhile isspace (rev s))"

definition strip :: "string \<Rightarrow> string" where
  "strip s = rstrip (lstrip s)"

text \<open>\<^verbatim>\<open>s.split(sep)\<close> for a one-character separator: the string is cut at every occurrence
  of the separator, empty pieces are kept, and the result is never empty (so the second
  branch of the \<open>case\<close> below is never taken).\<close>

fun split :: "char \<Rightarrow> string \<Rightarrow> string list" where
  "split sep [] = [[]]"
| "split sep (c # cs) =
     (if c = sep then [] # split sep cs
      else (case split sep cs of
              p # ps \<Rightarrow> (c # p) # ps
            | [] \<Rightarrow> [[c]]))"

text \<open>\<^verbatim>\<open>key, value = parts\<close>: exactly two items, or a \<open>ValueError\<close>.\<close>

fun unpack2 :: "string list \<Rightarrow> error + (string \<times> string)" where
  "unpack2 [] = Inl (NotEnoughValues 0)"
| "unpack2 [k] = Inl (NotEnoughValues 1)"
| "unpack2 [k, v] = Inr (k, v)"
| "unpack2 (k # v # w # ws) = Inl TooManyValues"

text \<open>The loop over the lines of the file, threading the dictionary.\<close>

fun read_metadata :: "dict \<Rightarrow> string list \<Rightarrow> (error \<times> dict) + dict" where
  "read_metadata metadata [] = Inr metadata"
| "read_metadata metadata (line # f) =
     (case unpack2 (split CHR ''='' line) of
        Inl e \<Rightarrow> Inl (e, metadata)
      | Inr (key, val) \<Rightarrow> read_metadata (AList.update (strip key) (strip val) metadata) f)"

text \<open>Iterating over a text file yields its lines, each with its terminating newline; a
  last line without newline is yielded as it is. The text is the one Python's text layer
  delivers, that is after the translation of line endings to \<open>\n\<close>.\<close>

fun file_lines_acc :: "string \<Rightarrow> string \<Rightarrow> string list" where
  "file_lines_acc cur [] = (if cur = [] then [] else [rev cur])"
| "file_lines_acc cur (c # cs) =
     (if c = CHR 0x0A then rev (c # cur) # file_lines_acc [] cs
      else file_lines_acc (c # cur) cs)"

definition file_lines :: "string \<Rightarrow> string list" where
  "file_lines text = file_lines_acc [] text"

definition parse_metadata :: "string \<Rightarrow> (error \<times> dict) + dict" where
  "parse_metadata text = read_metadata [] (file_lines text)"

text \<open>\<^verbatim>\<open>metadata[k]\<close> on the finished dictionary.\<close>

definition lookup :: "dict \<Rightarrow> string \<Rightarrow> string option" where
  "lookup metadata k = map_of metadata k"

text \<open>The two sides of a line around its first \<open>=\<close>, for stating what the parser stores.\<close>

definition key_part :: "string \<Rightarrow> string" where
  "key_part line = takeWhile (\<lambda>c. c \<noteq> CHR ''='') line"

definition value_part :: "string \<Rightarrow> string" where
  "value_part line = tl (dropWhile (\<lambda>c. c \<noteq> CHR ''='') line)"

text \<open>What the body of the loop does to the dictionary for a line with one \<open>=\<close>.\<close>

definition store_line :: "dict \<Rightarrow> string \<Rightarrow> dict" where
  "store_line metadata line =
     AList.update (strip (key_part line)) (strip (value_part line)) metadata"

definition whitespace :: "string \<Rightarrow> bool" where
  "whitespace s = list_all isspace s"

text \<open>A metadata line written with padding \<open>a\<close>, \<open>b\<close>, \<open>c\<close>, \<open>d\<close> around the key and the
  value (\<open>d\<close> holds the line end), and the same line written without any.\<close>

fun padded :: "string \<times> string \<times> string \<times> string \<times> string \<times> string \<Rightarrow> string" where
  "padded (a, k, b, c, v, d) = a @ k @ b @ ''='' @ c @ v @ d"

fun bare :: "string \<times> string \<times> string \<times> string \<times> string \<times> string \<Rightarrow> string" where
  "bare (a, k, b, c, v, d) = k @ ''='' @ v"

fun padding_ok :: "string \<times> string \<times> string \<times> string \<times> string \<times> string \<Rightarrow> bool" where
  "padding_ok (a, k, b, c, v, d) =
     (whitespace a \<and> whitespace b \<and> whitespace c \<and> whitespace d
      \<and> CHR ''='' \<notin> set k \<and> CHR ''='' \<notin> set v)"

section \<open>Conversion of digital numbers to reflectance\<close>

text \<open>
  The arrays of the notebook hold floating-point samples. A sample is modelled as a real
  number or one of the special values of the floating-point format; rounding and overflow
  are not modelled. \<open>NaN\<close> is the value \<^verbatim>\<open>where\<close> gives a masked pixel.

  \<^verbatim>\<open>math.cos\<close> is the cosine of the platform's mathematical library. Its value is not the
  real cosine: for the zenith angle of 90 degrees it returns a tiny non-zero number, not
  0. The conversion therefore takes the library function as a parameter \<open>math_cos\<close>, and
  nothing is assumed about the numbers it returns.
\<close>

datatype npfloat = NaN | PosInf | NegInf | Num real

text \<open>Array times scalar and array divided by scalar, on one sample. Dividing by zero
  raises nothing in an array operation: it gives an infinity, or \<open>NaN\<close> for zero by zero.\<close>

fun np_mul :: "npfloat \<Rightarrow> real \<Rightarrow> npfloat" where
  "np_mul NaN y = NaN"
| "np_mul (Num x) y = Num (x * y)"
| "np_mul PosInf y = (if 0 < y then PosInf else if y < 0 then NegInf else NaN)"
| "np_mul NegInf y = (if 0 < y then NegInf else if y < 0 then PosInf else NaN)"

fun np_div :: "npfloat \<Rightarrow> real \<Rightarrow> npfloat" where
  "np_div NaN y = NaN"
| "np_div (Num x) y =
     (if y \<noteq> 0 then Num (x / y)
      else if 0 < x then PosInf else if x < 0 then NegInf else NaN)"
| "np_div PosInf y = (if 0 \<le> y then PosInf else NegInf)"
| "np_div NegInf y = (if 0 \<le> y then NegInf else PosInf)"

type_synonym raster = "real list list"
type_synonym band = "npfloat list list"

text \<open>\<^verbatim>\<open>scene = scene.where(scene != 0)\<close>: a sample that is 0 becomes \<open>NaN\<close>.\<close>

definition where_ne0 :: "real \<Rightarrow> npfloat" where
  "where_ne0 dn = (if dn \<noteq> 0 then Num dn else NaN)"

definition scene_where :: "raster list \<Rightarrow> band list" where
  "scene_where scene = map (map (map where_ne0)) scene"

text \<open>\<^verbatim>\<open>math.radians\<close> and the zenith angle \<^verbatim>\<open>90 - float(sun_elevation_angle)\<close>.\<close>

definition radians :: "real \<Rightarrow> real" where
  "radians x = x * pi / 180"

definition sun_zenith_angle :: "real \<Rightarrow> real" where
  "sun_zenith_angle sun_elevation_angle = 90 - sun_elevation_angle"

definition b2_sr :: real where "b2_sr = 53.0"
definition b3_sr :: real where "b3_sr = 47.0"
definition b4_sr :: real where "b4_sr = 31.5"

definition b2_esun :: real where "b2_esun = 181.89"
definition b3_esun :: real where "b3_esun = 156.96"
definition b4_esun :: real where "b4_esun = 110.48"

text \<open>\<^verbatim>\<open>b_rad = b_dn*b_sr/1024\<close> and
  \<^verbatim>\<open>b_ref = (pi*b_rad*d*d)/(b_esun*math.cos(sun_zenith_angle_rad))\<close>, first on one sample,
  then on a whole band: an arithmetic operator between an array and a scalar acts on
  every element.\<close>

definition rad_px :: "npfloat \<Rightarrow> real \<Rightarrow> npfloat" where
  "rad_px dn sr = np_div (np_mul dn sr) 1024"

definition ref_px :: "(real \<Rightarrow> real) \<Rightarrow> npfloat \<Rightarrow> real \<Rightarrow> real \<Rightarrow> real \<Rightarrow> npfloat" where
  "ref_px math_cos rad esun d zenith_rad =
     np_div (np_mul (np_mul (np_mul rad pi) d) d) (esun * math_cos zenith_rad)"

definition b_rad :: "band \<Rightarrow> real \<Rightarrow> band" where
  "b_rad b_dn sr = map (map (\<lambda>dn. rad_px dn sr)) b_dn"

definition b_ref :: "(real \<Rightarrow> real) \<Rightarrow> band \<Rightarrow> real \<Rightarrow> real \<Rightarrow> real \<Rightarrow> band" where
  "b_ref math_cos rad esun d zenith_rad =
     map (map (\<lambda>x. ref_px math_cos x esun d zenith_rad)) rad"

text \<open>The cells from the stacking of the three bands to \<^verbatim>\<open>scene_ref\<close>. The sun elevation
  (read from the metadata), the Earth-Sun distance \<open>d\<close> (computed by the ephemeris
  library) and the library cosine are parameters.\<close>

definition scene_ref ::
  "(real \<Rightarrow> real) \<Rightarrow> real \<Rightarrow> real \<Rightarrow> raster \<Rightarrow> raster \<Rightarrow> raster \<Rightarrow> band list" where
  "scene_ref math_cos sun_elevation_angle d b2_ds b3_ds b4_ds =
     (let scene = scene_where [b2_ds, b3_ds, b4_ds];
          sun_zenith_angle_rad = radians (sun_zenith_angle sun_elevation_angle);
          b2_dn = scene ! 0;
          b3_dn = scene ! 1;
          b4_dn = scene ! 2;
          b2_rad = b_rad b2_dn b2_sr;
          b3_rad = b_rad b3_dn b3_sr;
          b4_rad = b_rad b4_dn b4_sr;
          b2_ref = b_ref math_cos b2_rad b2_esun d sun_zenith_angle_rad;
          b3_ref = b_ref math_cos b3_rad b3_esun d sun_zenith_angle_rad;
          b4_ref = b_ref math_cos b4_rad b4_esun d sun_zenith_angle_rad
      in [b2_ref, b3_ref, b4_ref])"

text \<open>The formulas in the words of the specification, on real numbers, with the exact
  cosine and the conversion from degrees to radians written out.\<close>

definition spec_radiance :: "real \<Rightarrow> real \<Rightarrow> real" where
  "spec_radiance DN SR = DN * SR / 1024"

definition spec_reflectance :: "real \<Rightarrow> real \<Rightarrow> real \<Rightarrow> real \<Rightarrow> real" where
  "spec_reflectance radiance d ESUN e =
     (pi * radiance * d\<^sup>2) / (ESUN * cos ((90 - e) * pi / 180))"

text \<open>The calibration constants of band number \<open>i\<close> of the stack (0 is \<open>BAND2\<close>).\<close>

definition sr_of :: "nat \<Rightarrow> real" where
  "sr_of i = [b2_sr, b3_sr, b4_sr] ! i"

definition esun_of :: "nat \<Rightarrow> real" where
  "esun_of i = [b2_esun, b3_esun, b4_esun] ! i"

text \<open>Doubling every digital number of a raster.\<close>

definition double_dn :: "raster \<Rightarrow> raster" where
  "double_dn b_ds = map (map (\<lambda>dn. 2 * dn)) b_ds"

text \<open>The positions (band, row, column) of a scene, in row-major order and as a set.\<close>

type_synonym coord = "nat \<times> nat \<times> nat"

definition row_major :: "raster list \<Rightarrow> coord list" where
  "row_major scene =
     concat (map (\<lambda>i.
       concat (map (\<lambda>r.
         map (\<lambda>c. (i, r, c)) [0..<length (scene ! i ! r)])
         [0..<length (scene ! i)]))
       [0..<length scene])"

definition coords :: "raster list \<Rightarrow> coord set" where
  "coords scene = set (row_major scene)"

section \<open>Properties of the metadata parser\<close>

subsection \<open>Splitting and unpacking\<close>

lemma split_not_Nil: "split sep s \<noteq> []"
  by (induction s) (auto split: list.splits)

lemma length_split: "length (split sep s) = Suc (count_list s sep)"
  by (induction s) (auto simp: split_not_Nil split: list.splits)

lemma split_no_sep: "sep \<notin> set s \<Longrightarrow> split sep s = [s]"
  by (induction s) auto

lemma split_append_sep: "sep \<notin> set k \<Longrightarrow> split sep (k @ sep # r) = k # split sep r"
  by (induction k) auto

lemma unpack2_short: "length ps < 2 \<Longrightarrow> unpack2 ps = Inl (NotEnoughValues (length ps))"
  by (cases ps rule: unpack2.cases) auto

lemma unpack2_long: "2 < length ps \<Longrightarrow> unpack2 ps = Inl TooManyValues"
  by (cases ps rule: unpack2.cases) auto

lemma unpack2_two: "length ps = 2 \<Longrightarrow> unpack2 ps = Inr (ps ! 0, ps ! 1)"
  by (cases ps rule: unpack2.cases) auto

lemma first_eq_decomp:
  "CHR ''='' \<in> set line \<Longrightarrow> line = key_part line @ CHR ''='' # value_part line"
  unfolding key_part_def value_part_def
  by (induction line) auto

lemma key_part_no_eq: "CHR ''='' \<notin> set (key_part line)"
  unfolding key_part_def by (induction line) auto

lemma count_list_0_iff: "count_list xs x = 0 \<longleftrightarrow> x \<notin> set xs"
  by (induction xs) auto

lemma value_part_no_eq:
  "count_list line CHR ''='' = 1 \<Longrightarrow> CHR ''='' \<notin> set (value_part line)"
  unfolding value_part_def
  by (induction line) (auto simp: count_list_0_iff split: if_splits)

lemma split_one_eq:
  assumes "count_list line CHR ''='' = 1"
  shows "split CHR ''='' line = [key_part line, value_part line]"
proof -
  have "CHR ''='' \<in> set line" using assms count_list_0_iff[of line "CHR ''=''"] by auto
  then have "line = key_part line @ CHR ''='' # value_part line" by (rule first_eq_decomp)
  then have "split CHR ''='' line = split CHR ''='' (key_part line @ CHR ''='' # value_part line)"
    by simp
  also have "\<dots> = key_part line # split CHR ''='' (value_part line)"
    by (rule split_append_sep[OF key_part_no_eq])
  also have "\<dots> = [key_part line, value_part line]"
    using split_no_sep[OF value_part_no_eq[OF assms]] by simp
  finally show ?thesis .
qed


lemma read_line_ok:
  assumes "count_list line CHR ''='' = 1"
  shows "read_metadata m (line # f) =
         read_metadata (AList.update (strip (key_part line)) (strip (value_part line)) m) f"
  by (simp add: split_one_eq[OF assms])

lemma read_line_few:
  assumes "CHR ''='' \<notin> set line"
  shows "read_metadata m (line # f) = Inl (NotEnoughValues 1, m)"
  by (simp add: split_no_sep[OF assms])

lemma read_line_many:
  assumes "2 \<le> count_list line CHR ''=''"
  shows "read_metadata m (line # f) = Inl (TooManyValues, m)"
proof -
  have "2 < length (split CHR ''='' line)" using assms by (simp add: length_split)
  then show ?thesis by (simp add: unpack2_long)
qed

lemma count_cases:
  obtains (none) "CHR ''='' \<notin> set line"
  | (one) "count_list line CHR ''='' = 1"
  | (many) "2 \<le> count_list line CHR ''=''"
proof -
  have "count_list line CHR ''='' = 0 \<or> count_list line CHR ''='' = 1
        \<or> 2 \<le> count_list line CHR ''=''" by arith
  then show thesis using none one many by (auto simp: count_list_0_iff)
qed

lemma read_line_bad:
  assumes "count_list line CHR ''='' \<noteq> 1"
  shows "\<exists>e. read_metadata m (line # f) = Inl e"
proof (cases line rule: count_cases)
  case none then show ?thesis using read_line_few by blast
next
  case one then show ?thesis using assms by simp
next
  case many then show ?thesis using read_line_many by blast
qed

lemma read_metadata_prefix_ok:
  assumes "\<forall>l\<in>set pre. count_list l CHR ''='' = 1"
  shows "read_metadata m (pre @ f) = read_metadata (foldl store_line m pre) f"
  using assms
proof (induction pre arbitrary: m)
  case Nil
  then show ?case by simp
next
  case (Cons l pre)
  then have l: "count_list l CHR ''='' = 1" by simp
  have "read_metadata m (l # pre @ f) = read_metadata (store_line m l) (pre @ f)"
    unfolding store_line_def by (rule read_line_ok[OF l])
  with Cons show ?case by simp
qed

lemma read_metadata_Inr_iff:
  "(\<exists>m'. read_metadata m f = Inr m') \<longleftrightarrow> (\<forall>line\<in>set f. count_list line CHR ''='' = 1)"
proof (induction f arbitrary: m)
  case Nil
  then show ?case by simp
next
  case (Cons l f)
  show ?case
  proof (cases "count_list l CHR ''='' = 1")
    case True
    then show ?thesis using Cons.IH by (simp only: read_line_ok[OF True]) simp
  next
    case False
    then obtain e where "read_metadata m (l # f) = Inl e" using read_line_bad by blast
    then show ?thesis using False by simp
  qed
qed

lemma read_metadata_bad_line:
  assumes "line \<in> set f" "count_list line CHR ''='' \<noteq> 1"
  shows "\<exists>e. read_metadata m f = Inl e"
proof -
  have "\<not> (\<exists>m'. read_metadata m f = Inr m')"
    using assms read_metadata_Inr_iff[of m f] by blast
  then show ?thesis by (cases "read_metadata m f") auto
qed

lemma read_metadata_stops_few:
  assumes "\<forall>l\<in>set pre. count_list l CHR ''='' = 1" "CHR ''='' \<notin> set line"
  shows "read_metadata m (pre @ line # rest) =
         Inl (NotEnoughValues 1, foldl store_line m pre)"
  unfolding read_metadata_prefix_ok[OF assms(1)] by (rule read_line_few[OF assms(2)])

lemma read_metadata_stops_many:
  assumes "\<forall>l\<in>set pre. count_list l CHR ''='' = 1" "2 \<le> count_list line CHR ''=''"
  shows "read_metadata m (pre @ line # rest) = Inl (TooManyValues, foldl store_line m pre)"
  unfolding read_metadata_prefix_ok[OF assms(1)] by (rule read_line_many[OF assms(2)])

subsection \<open>Lines with exactly one separator\<close>

text \<open>
  Claim C2 says that a line is split at its first \<open>=\<close> and that a value which itself
  contains \<open>=\<close> is parsed. The code splits at every \<open>=\<close> and unpacks into two names, so
  such a line raises \<open>ValueError\<close>: the line \<^verbatim>\<open>Note= a=b\<close> is not stored.
\<close>

theorem C2_counterexample:
  "read_metadata [] [''Note= a=b''] = Inl (TooManyValues, [])"
  by simp

text \<open>
  Claim C2, amended: a line with exactly one \<open>=\<close> is split at that character into the
  part before it and the part after it, both parts are stripped of surrounding
  whitespace, and the pair is stored in the dictionary before the next line is read.
\<close>

theorem C2_single_eq_line_stored:
  assumes "count_list line CHR ''='' = 1"
  shows "split CHR ''='' line = [key_part line, value_part line]
         \<and> line = key_part line @ ''='' @ value_part line
         \<and> read_metadata metadata (line # f) =
             read_metadata
               (AList.update (strip (key_part line)) (strip (value_part line)) metadata) f
         \<and> lookup (AList.update (strip (key_part line)) (strip (value_part line)) metadata)
             (strip (key_part line)) = Some (strip (value_part line))"
proof (intro conjI)
  show "split CHR ''='' line = [key_part line, value_part line]"
    by (rule split_one_eq[OF assms])
next
  have "CHR ''='' \<in> set line" using assms count_list_0_iff[of line "CHR ''=''"] by auto
  then have d: "line = key_part line @ CHR ''='' # value_part line"
    by (rule first_eq_decomp)
  have e: "''='' @ value_part line = CHR ''='' # value_part line" by simp
  show "line = key_part line @ ''='' @ value_part line"
    unfolding e by (rule d)
next
  show "read_metadata metadata (line # f) =
        read_metadata
          (AList.update (strip (key_part line)) (strip (value_part line)) metadata) f"
    by (rule read_line_ok[OF assms])
next
  show "lookup (AList.update (strip (key_part line)) (strip (value_part line)) metadata)
          (strip (key_part line)) = Some (strip (value_part line))"
    by (simp add: lookup_def update_conv')
qed

theorem C2_witness:
  "count_list ''ProductID= 2326285231'' CHR ''='' = 1
   \<and> read_metadata [] [''ProductID= 2326285231''] = Inr [(''ProductID'', ''2326285231'')]"
  using C2_single_eq_line_stored[of "''ProductID= 2326285231''" "[]" "[]"]
  by (simp add: key_part_def value_part_def strip_def lstrip_def rstrip_def isspace_def)

subsection \<open>Lines that make the parser fail\<close>

text \<open>
  Claim C4 says that a line without \<open>=\<close> makes the parser fail and that no partial
  mapping is produced. The failure is there, but the dictionary is filled in place and
  nothing undoes it: after \<^verbatim>\<open>a=1\<close>, \<^verbatim>\<open>Remark\<close>, \<^verbatim>\<open>c=4\<close> the error is raised at the second
  line and \<open>metadata\<close> holds the pair of the first.
\<close>

theorem C4_counterexample:
  "read_metadata [] [''a=1'', ''Remark'', ''c=4''] = Inl (NotEnoughValues 1, [(''a'', ''1'')])"
  by (simp add: strip_def lstrip_def rstrip_def isspace_def)

text \<open>
  Claim C4, amended: when some line of the input has no \<open>=\<close>, the parser ends with an
  error. The error propagates at once and nothing is recovered: when the lines before
  it are well formed, the error is the unpacking error of that line, no later line is
  read, and the dictionary is left holding the pairs of the lines before it. The same
  failure holds for the text of a file, where an empty line is such a line.
\<close>

theorem C4_no_eq_fails:
  "(line \<in> set f \<and> CHR ''='' \<notin> set line \<longrightarrow>
      (\<exists>e m. read_metadata metadata f = Inl (e, m)))
   \<and> ((\<forall>l\<in>set pre. count_list l CHR ''='' = 1) \<and> CHR ''='' \<notin> set line \<longrightarrow>
      read_metadata metadata (pre @ line # rest) =
        Inl (NotEnoughValues 1, foldl store_line metadata pre))
   \<and> (line \<in> set (file_lines text) \<and> CHR ''='' \<notin> set line \<longrightarrow>
      (\<exists>e m. parse_metadata text = Inl (e, m)))"
proof (intro conjI impI)
  assume a: "line \<in> set f \<and> CHR ''='' \<notin> set line"
  then have "count_list line CHR ''='' \<noteq> 1" using count_list_0_iff[of line "CHR ''=''"] by auto
  with a obtain x where "read_metadata metadata f = Inl x"
    using read_metadata_bad_line by blast
  then show "\<exists>e m. read_metadata metadata f = Inl (e, m)" by (cases x) auto
next
  assume "(\<forall>l\<in>set pre. count_list l CHR ''='' = 1) \<and> CHR ''='' \<notin> set line"
  then show "read_metadata metadata (pre @ line # rest) =
        Inl (NotEnoughValues 1, foldl store_line metadata pre)"
    using read_metadata_stops_few by blast
next
  assume a: "line \<in> set (file_lines text) \<and> CHR ''='' \<notin> set line"
  then have "count_list line CHR ''='' \<noteq> 1" using count_list_0_iff[of line "CHR ''=''"] by auto
  with a obtain x where "parse_metadata text = Inl x"
    unfolding parse_metadata_def using read_metadata_bad_line by blast
  then show "\<exists>e m. parse_metadata text = Inl (e, m)" by (cases x) auto
qed

theorem C4_witness:
  "''Remark'' \<in> set [''a=1'', ''Remark'', ''c=4'']
   \<and> CHR ''='' \<notin> set ''Remark''
   \<and> count_list ''a=1'' CHR ''='' = 1
   \<and> (\<exists>e m. read_metadata [] [''a=1'', ''Remark'', ''c=4''] = Inl (e, m))
   \<and> read_metadata [] ([''a=1''] @ ''Remark'' # [''c=4'']) =
       Inl (NotEnoughValues 1, [(''a'', ''1'')])
   \<and> ''\<newline>'' \<in> set (file_lines ''a=1\<newline>\<newline>c=4'')
   \<and> CHR ''='' \<notin> set ''\<newline>''
   \<and> (\<exists>e m. parse_metadata ''a=1\<newline>\<newline>c=4'' = Inl (e, m))"
  using C4_no_eq_fails[of "''Remark''" "[''a=1'', ''Remark'', ''c=4'']" "[]" "[''a=1'']" "[''c=4'']"
          "''a=1\<newline>\<newline>c=4''"]
        C4_no_eq_fails[of "''\<newline>''" "[]" "[]" "[]" "[]" "''a=1\<newline>\<newline>c=4''"]
  by (simp add: file_lines_def store_line_def key_part_def value_part_def
      strip_def lstrip_def rstrip_def isspace_def)

text \<open>
  Claim C10: when some line of the input has two or more \<open>=\<close>, the parser ends with an
  error, the one for too many values when the lines before it are well formed. The parser
  returns a dictionary exactly when every line has exactly one \<open>=\<close>.
\<close>

theorem C10_more_than_one_eq_fails:
  "(line \<in> set f \<and> 2 \<le> count_list line CHR ''='' \<longrightarrow>
      (\<exists>e m. read_metadata metadata f = Inl (e, m)))
   \<and> ((\<forall>l\<in>set pre. count_list l CHR ''='' = 1) \<and> 2 \<le> count_list line CHR ''='' \<longrightarrow>
      read_metadata metadata (pre @ line # rest) =
        Inl (TooManyValues, foldl store_line metadata pre))
   \<and> ((\<exists>m. read_metadata metadata f = Inr m) \<longleftrightarrow>
      (\<forall>l\<in>set f. count_list l CHR ''='' = 1))"
proof (intro conjI impI)
  assume "line \<in> set f \<and> 2 \<le> count_list line CHR ''=''"
  then have "line \<in> set f" "count_list line CHR ''='' \<noteq> 1" by auto
  then obtain x where "read_metadata metadata f = Inl x"
    using read_metadata_bad_line by blast
  then show "\<exists>e m. read_metadata metadata f = Inl (e, m)" by (cases x) auto
next
  assume "(\<forall>l\<in>set pre. count_list l CHR ''='' = 1) \<and> 2 \<le> count_list line CHR ''=''"
  then show "read_metadata metadata (pre @ line # rest) =
        Inl (TooManyValues, foldl store_line metadata pre)"
    using read_metadata_stops_many by blast
next
  show "(\<exists>m. read_metadata metadata f = Inr m) \<longleftrightarrow> (\<forall>l\<in>set f. count_list l CHR ''='' = 1)"
    by (rule read_metadata_Inr_iff)
qed

theorem C10_witness:
  "''b=2=3'' \<in> set [''a=1'', ''b=2=3'']
   \<and> 2 \<le> count_list ''b=2=3'' CHR ''=''
   \<and> count_list ''a=1'' CHR ''='' = 1
   \<and> (\<exists>e m. read_metadata [] [''a=1'', ''b=2=3''] = Inl (e, m))
   \<and> read_metadata [] ([''a=1''] @ ''b=2=3'' # [''c=4'']) = Inl (TooManyValues, [(''a'', ''1'')])
   \<and> count_list ''c=4'' CHR ''='' = 1
   \<and> (\<exists>m. read_metadata [] [''a=1'', ''c=4''] = Inr m)"
  using C10_more_than_one_eq_fails[of "''b=2=3''" "[''a=1'', ''b=2=3'']" "[]" "[''a=1'']" "[''c=4'']"]
        C10_more_than_one_eq_fails[of "''b=2=3''" "[''a=1'', ''c=4'']" "[]" "[''a=1'']" "[''c=4'']"]
  by (simp add: store_line_def key_part_def value_part_def
      strip_def lstrip_def rstrip_def isspace_def)

subsection \<open>Well-formed text: one value per key, the last one\<close>

lemma read_metadata_valid:
  assumes "\<forall>line\<in>set f. count_list line CHR ''='' = 1"
  shows "read_metadata m f = Inr (foldl store_line m f)"
  using assms
proof (induction f arbitrary: m)
  case Nil
  then show ?case by simp
next
  case (Cons l f)
  then have l: "count_list l CHR ''='' = 1" by simp
  have "read_metadata m (l # f) = read_metadata (store_line m l) f"
    unfolding store_line_def by (rule read_line_ok[OF l])
  with Cons show ?case by simp
qed

lemma distinct_store_lines:
  "distinct (map fst m) \<Longrightarrow> distinct (map fst (foldl store_line m f))"
  by (induction f arbitrary: m) (simp_all add: store_line_def distinct_update)

lemma keys_store_lines:
  "fst ` set (foldl store_line m f) = fst ` set m \<union> (\<lambda>l. strip (key_part l)) ` set f"
  by (induction f arbitrary: m) (auto simp: store_line_def dom_update)

lemma map_of_store_lines_other:
  "k \<notin> (\<lambda>l. strip (key_part l)) ` set post \<Longrightarrow>
   map_of (foldl store_line m post) k = map_of m k"
  by (induction post arbitrary: m) (auto simp: store_line_def update_conv')

lemma last_occurrence_wins:
  assumes "\<forall>l\<in>set post. strip (key_part l) \<noteq> strip (key_part line)"
  shows "lookup (foldl store_line m (pre @ line # post)) (strip (key_part line)) =
         Some (strip (value_part line))"
proof -
  have "strip (key_part line) \<notin> (\<lambda>l. strip (key_part l)) ` set post"
    using assms by auto
  then have "map_of (foldl store_line m (pre @ line # post)) (strip (key_part line)) =
             map_of (store_line (foldl store_line m pre) line) (strip (key_part line))"
    by (simp add: map_of_store_lines_other)
  then show ?thesis by (simp add: lookup_def store_line_def update_conv')
qed

lemma isspace_not_eq: "\<not> isspace CHR ''=''"
  by (simp add: isspace_def)

lemma whitespace_no_eq: "whitespace a \<Longrightarrow> CHR ''='' \<notin> set a"
  using isspace_not_eq by (auto simp: whitespace_def list_all_iff)

lemma lstrip_ws_prefix: "whitespace a \<Longrightarrow> lstrip (a @ s) = lstrip s"
  by (simp add: lstrip_def whitespace_def list_all_iff)

lemma rstrip_ws_suffix:
  assumes "whitespace b"
  shows "rstrip (s @ b) = rstrip s"
proof -
  have "\<And>x. x \<in> set (rev b) \<Longrightarrow> isspace x"
    using assms by (simp add: whitespace_def list_all_iff)
  then have "dropWhile isspace (rev b @ rev s) = dropWhile isspace (rev s)"
    by (rule dropWhile_append2)
  then show ?thesis by (simp add: rstrip_def)
qed

lemma rstrip_lstrip_ws_suffix:
  assumes "whitespace b"
  shows "rstrip (lstrip (s @ b)) = rstrip (lstrip s)"
proof (cases "\<forall>x\<in>set s. isspace x")
  case True
  then have "lstrip (s @ b) = []" "lstrip s = []"
    using assms by (simp_all add: lstrip_def whitespace_def list_all_iff)
  then show ?thesis by simp
next
  case False
  then have "lstrip (s @ b) = lstrip s @ b"
    by (auto simp: lstrip_def dropWhile_append)
  then show ?thesis using rstrip_ws_suffix[OF assms] by simp
qed

lemma strip_padding:
  assumes "whitespace a" "whitespace b"
  shows "strip (a @ s @ b) = strip s"
  unfolding strip_def
  using lstrip_ws_prefix[OF assms(1)] rstrip_lstrip_ws_suffix[OF assms(2)] by simp

lemma split_padded:
  assumes "padding_ok (a, k, b, c, v, d)"
  shows "split CHR ''='' (padded (a, k, b, c, v, d)) = [a @ k @ b, c @ v @ d]"
proof -
  have l: "CHR ''='' \<notin> set (a @ k @ b)" and r: "CHR ''='' \<notin> set (c @ v @ d)"
    using assms whitespace_no_eq by auto
  have "padded (a, k, b, c, v, d) = (a @ k @ b) @ CHR ''='' # (c @ v @ d)" by simp
  then show ?thesis
    using split_append_sep[OF l, of "c @ v @ d"] split_no_sep[OF r] by simp
qed

lemma split_bare:
  assumes "padding_ok (a, k, b, c, v, d)"
  shows "split CHR ''='' (bare (a, k, b, c, v, d)) = [k, v]"
proof -
  have l: "CHR ''='' \<notin> set k" and r: "CHR ''='' \<notin> set v"
    using assms by auto
  show ?thesis
    using split_append_sep[OF l, of v] split_no_sep[OF r] by simp
qed

lemma read_padded_line:
  assumes "padding_ok p"
  shows "read_metadata m (padded p # f) = read_metadata m (bare p # f)"
proof -
  obtain a k b c v d where p: "p = (a, k, b, c, v, d)" by (cases p) auto
  have ws: "whitespace a" "whitespace b" "whitespace c" "whitespace d"
    using assms p by auto
  have "read_metadata m (padded p # f) =
        read_metadata (AList.update (strip (a @ k @ b)) (strip (c @ v @ d)) m) f"
    using split_padded[OF assms[unfolded p]] unfolding p
    by (simp only: read_metadata.simps unpack2.simps sum.case prod.case)
  moreover have "read_metadata m (bare p # f) =
        read_metadata (AList.update (strip k) (strip v) m) f"
    using split_bare[OF assms[unfolded p]] unfolding p
    by (simp only: read_metadata.simps unpack2.simps sum.case prod.case)
  ultimately show ?thesis
    by (simp add: strip_padding[OF ws(1,2)] strip_padding[OF ws(3,4)])
qed

lemma read_padded_lines:
  assumes "\<forall>p\<in>set ps. padding_ok p"
  shows "read_metadata m (map padded ps) = read_metadata m (map bare ps)"
  using assms
proof (induction ps arbitrary: m)
  case Nil
  then show ?case by simp
next
  case (Cons p ps)
  then have p: "padding_ok p" by simp
  obtain a k b c v d where pe: "p = (a, k, b, c, v, d)" by (cases p) auto
  have "read_metadata m (bare p # map padded ps) = read_metadata m (bare p # map bare ps)"
    using split_bare[OF p[unfolded pe]] Cons unfolding pe
    by (simp only: read_metadata.simps unpack2.simps sum.case prod.case) simp
  then show ?case using read_padded_line[OF p, of m "map padded ps"] by simp
qed

lemma padded_valid:
  assumes "padding_ok p"
  shows "count_list (padded p) CHR ''='' = 1"
proof -
  obtain a k b c v d where p: "p = (a, k, b, c, v, d)" by (cases p) auto
  have "length (split CHR ''='' (padded p)) = 2"
    using split_padded[OF assms[unfolded p]] unfolding p by simp
  then show ?thesis by (simp add: length_split)
qed

text \<open>
  Claim C5: for a text whose lines all have exactly one \<open>=\<close>, the parser returns a
  dictionary with one entry per key, its keys are the trimmed keys of the lines, and the
  value of a key is the trimmed value of the last line that has this key. The result does
  not depend on the whitespace written around the key and around the value, which
  includes the end of the line: the padded lines give what the bare lines give.
\<close>

theorem C5_one_value_per_key:
  "((\<forall>line\<in>set f. count_list line CHR ''='' = 1) \<longrightarrow>
      (\<exists>m. read_metadata [] f = Inr m
        \<and> distinct (map fst m)
        \<and> fst ` set m = (\<lambda>l. strip (key_part l)) ` set f
        \<and> (\<forall>pre line post.
              f = pre @ line # post
              \<and> (\<forall>l\<in>set post. strip (key_part l) \<noteq> strip (key_part line)) \<longrightarrow>
              lookup m (strip (key_part line)) = Some (strip (value_part line)))))
   \<and> ((\<forall>p\<in>set ps. padding_ok p) \<longrightarrow>
        (\<forall>l\<in>set (map padded ps). count_list l CHR ''='' = 1)
        \<and> read_metadata [] (map padded ps) = read_metadata [] (map bare ps))"
proof (intro conjI impI)
  assume valid: "\<forall>line\<in>set f. count_list line CHR ''='' = 1"
  let ?m = "foldl store_line [] f"
  have r: "read_metadata [] f = Inr ?m" by (rule read_metadata_valid[OF valid])
  have d: "distinct (map fst ?m)" by (rule distinct_store_lines) simp
  have k: "fst ` set ?m = (\<lambda>l. strip (key_part l)) ` set f"
    by (simp add: keys_store_lines)
  have w: "\<forall>pre line post.
              f = pre @ line # post
              \<and> (\<forall>l\<in>set post. strip (key_part l) \<noteq> strip (key_part line)) \<longrightarrow>
              lookup ?m (strip (key_part line)) = Some (strip (value_part line))"
    using last_occurrence_wins by blast
  from r d k w show "\<exists>m. read_metadata [] f = Inr m
        \<and> distinct (map fst m)
        \<and> fst ` set m = (\<lambda>l. strip (key_part l)) ` set f
        \<and> (\<forall>pre line post.
              f = pre @ line # post
              \<and> (\<forall>l\<in>set post. strip (key_part l) \<noteq> strip (key_part line)) \<longrightarrow>
              lookup m (strip (key_part line)) = Some (strip (value_part line)))"
    by blast
next
  assume "\<forall>p\<in>set ps. padding_ok p"
  then show "\<forall>l\<in>set (map padded ps). count_list l CHR ''='' = 1"
    using padded_valid by auto
next
  assume "\<forall>p\<in>set ps. padding_ok p"
  then show "read_metadata [] (map padded ps) = read_metadata [] (map bare ps)"
    by (rule read_padded_lines)
qed

theorem C5_witness:
  "count_list ''a= 1\<newline>'' CHR ''='' = 1
   \<and> count_list ''b =2\<newline>'' CHR ''='' = 1
   \<and> count_list ''a=3'' CHR ''='' = 1
   \<and> read_metadata [] [''a= 1\<newline>'', ''b =2\<newline>'', ''a=3''] = Inr [(''a'', ''3''), (''b'', ''2'')]
   \<and> lookup [(''a'', ''3''), (''b'', ''2'')] ''a'' = Some ''3''
   \<and> padding_ok ('' '', ''a'', ''  '', '' '', ''1'', ''\<newline>'')
   \<and> padded ('' '', ''a'', ''  '', '' '', ''1'', ''\<newline>'') = '' a  = 1\<newline>''
   \<and> read_metadata [] ['' a  = 1\<newline>''] = read_metadata [] [''a=1'']"
proof -
  let ?f = "[''a= 1\<newline>'', ''b =2\<newline>'', ''a=3'']"
  let ?p = "('' '', ''a'', ''  '', '' '', ''1'', ''\<newline>'')"
  have v: "\<forall>line\<in>set ?f. count_list line CHR ''='' = 1" by simp
  have ok: "\<forall>p\<in>set [?p]. padding_ok p" by (simp add: whitespace_def isspace_def)
  have e: "read_metadata [] ?f = Inr [(''a'', ''3''), (''b'', ''2'')]"
    by (simp add: strip_def lstrip_def rstrip_def isspace_def)
  from C5_one_value_per_key[of ?f "[?p]"] ok
  have pb: "read_metadata [] (map padded [?p]) = read_metadata [] (map bare [?p])" by blast
  show ?thesis using v ok e pb by (simp add: lookup_def)
qed

section \<open>Properties of the conversion to reflectance\<close>

lemma scene_ref_nth:
  assumes "i < 3"
  shows "scene_ref math_cos e d b2_ds b3_ds b4_ds ! i =
         b_ref math_cos (b_rad (map (map where_ne0) ([b2_ds, b3_ds, b4_ds] ! i)) (sr_of i))
           (esun_of i) d (radians (sun_zenith_angle e))"
proof -
  from assms have "i = 0 \<or> i = 1 \<or> i = 2" by arith
  then show ?thesis
    by (auto simp: scene_ref_def scene_where_def sr_of_def esun_of_def Let_def)
qed

lemma b_rad_nth:
  assumes "r < length g" "c < length (g ! r)"
  shows "b_rad g sr ! r ! c = rad_px (g ! r ! c) sr"
  using assms by (simp add: b_rad_def)

lemma b_ref_b_rad_nth:
  assumes "r < length g" "c < length (g ! r)"
  shows "b_ref math_cos (b_rad g sr) esun d z ! r ! c =
         ref_px math_cos (rad_px (g ! r ! c) sr) esun d z"
  using assms by (simp add: b_ref_def b_rad_def)

lemma coords_iff:
  "(i, r, c) \<in> coords scene \<longleftrightarrow>
   i < length scene \<and> r < length (scene ! i) \<and> c < length (scene ! i ! r)"
  by (fastforce simp: coords_def row_major_def)

text \<open>Every output sample is computed from the input sample at the same position.\<close>

lemma scene_ref_pixel:
  assumes "(i, r, c) \<in> coords [b2_ds, b3_ds, b4_ds]"
  shows "scene_ref math_cos e d b2_ds b3_ds b4_ds ! i ! r ! c =
         ref_px math_cos (rad_px (where_ne0 ([b2_ds, b3_ds, b4_ds] ! i ! r ! c)) (sr_of i))
           (esun_of i) d (radians (sun_zenith_angle e))"
proof -
  from assms have i: "i < 3" and r: "r < length ([b2_ds, b3_ds, b4_ds] ! i)"
    and c: "c < length ([b2_ds, b3_ds, b4_ds] ! i ! r)"
    by (simp_all add: coords_iff)
  show ?thesis
    unfolding scene_ref_nth[OF i] using r c by (simp add: b_ref_b_rad_nth)
qed

lemma rad_px_Num: "rad_px (Num DN) SR = Num (spec_radiance DN SR)"
  by (simp add: rad_px_def spec_radiance_def)

lemma zenith_rad_eq: "radians (sun_zenith_angle e) = (90 - e) * pi / 180"
  by (simp add: radians_def sun_zenith_angle_def)

lemma ref_px_Num:
  "ref_px math_cos (Num x) ESUN d (radians (sun_zenith_angle e)) =
   np_div (Num (pi * x * d\<^sup>2)) (ESUN * math_cos ((90 - e) * pi / 180))"
  unfolding zenith_rad_eq by (simp add: ref_px_def power2_eq_square mult_ac)

lemma ref_px_Num_defined:
  assumes "ESUN * cos ((90 - e) * pi / 180) \<noteq> 0"
  shows "ref_px cos (Num x) ESUN d (radians (sun_zenith_angle e)) =
         Num (spec_reflectance x d ESUN e)"
  unfolding ref_px_Num spec_reflectance_def using assms by simp

lemma rad_px_NaN: "rad_px NaN sr = NaN"
  by (simp add: rad_px_def)

lemma ref_px_NaN: "ref_px math_cos NaN esun d z = NaN"
  by (simp add: ref_px_def)

lemma ref_px_Num_raw:
  "ref_px math_cos (Num a) esun d z = np_div (Num (a * pi * d * d)) (esun * math_cos z)"
  by (simp only: ref_px_def np_mul.simps)

lemma np_div_double: "np_div (Num (2 * n)) y = np_mul (np_div (Num n) y) 2"
  by (simp add: zero_less_mult_iff mult_less_0_iff)

lemma ref_px_double:
  "ref_px math_cos (rad_px (where_ne0 (2 * x)) sr) esun d z =
   np_mul (ref_px math_cos (rad_px (where_ne0 x) sr) esun d z) 2"
proof (cases "x = 0")
  case True
  then show ?thesis by (simp add: where_ne0_def rad_px_def ref_px_def)
next
  case False
  have a: "rad_px (where_ne0 (2 * x)) sr = Num (2 * x * sr / 1024)"
    and b: "rad_px (where_ne0 x) sr = Num (x * sr / 1024)"
    using False by (simp_all add: where_ne0_def rad_px_def)
  have n2: "2 * x * sr / 1024 * pi * d * d = 2 * (x * sr / 1024 * pi * d * d)" by simp
  show ?thesis
    unfolding a b ref_px_Num_raw n2 by (rule np_div_double)
qed

lemma rad_px_double:
  "rad_px (where_ne0 (2 * x)) sr = np_mul (rad_px (where_ne0 x) sr) 2"
  by (simp add: where_ne0_def rad_px_def)

lemma esun_of_nonzero: "i < 3 \<Longrightarrow> esun_of i \<noteq> 0"
proof -
  assume "i < 3"
  then have "i = 0 \<or> i = 1 \<or> i = 2" by arith
  then show ?thesis
    by (auto simp: esun_of_def b2_esun_def b3_esun_def b4_esun_def)
qed

text \<open>
  Claim C1: for every numeric sample \<open>DN\<close> of a band, at every position of the band, and
  for every saturation radiance \<open>SR\<close>, solar irradiance \<open>ESUN\<close>, Earth-Sun distance \<open>d\<close> and
  sun elevation \<open>e\<close>, the radiance array holds \<open>DN * SR / 1024\<close>, and the reflectance array
  holds the quotient of \<open>pi * radiance * d\<^sup>2\<close> by \<open>ESUN\<close> times the number the library
  cosine returns for the zenith angle \<open>90 - e\<close> converted to radians. When the library
  cosine is the exact cosine and the divisor is not zero, this is the number
  \<open>(pi * radiance * d\<^sup>2) / (ESUN * cos (radians (90 - e)))\<close>. The same holds in the whole
  pipeline for each of the three bands with its own constants, at every position whose
  digital number is not the masked value 0.
\<close>

theorem C1_radiance_reflectance_formula:
  "(r < length b_dn \<and> c < length (b_dn ! r) \<and> b_dn ! r ! c = Num DN \<longrightarrow>
      b_rad b_dn SR ! r ! c = Num (spec_radiance DN SR)
      \<and> b_ref math_cos (b_rad b_dn SR) ESUN d (radians (sun_zenith_angle e)) ! r ! c =
          np_div (Num (pi * spec_radiance DN SR * d\<^sup>2))
            (ESUN * math_cos ((90 - e) * pi / 180))
      \<and> (ESUN * cos ((90 - e) * pi / 180) \<noteq> 0 \<longrightarrow>
          b_ref cos (b_rad b_dn SR) ESUN d (radians (sun_zenith_angle e)) ! r ! c =
            Num (spec_reflectance (spec_radiance DN SR) d ESUN e)))
   \<and> ((i, y, x) \<in> coords [b2_ds, b3_ds, b4_ds] \<and> [b2_ds, b3_ds, b4_ds] ! i ! y ! x \<noteq> 0 \<longrightarrow>
      scene_ref math_cos e d b2_ds b3_ds b4_ds ! i ! y ! x =
        np_div (Num (pi * spec_radiance ([b2_ds, b3_ds, b4_ds] ! i ! y ! x) (sr_of i) * d\<^sup>2))
          (esun_of i * math_cos ((90 - e) * pi / 180))
      \<and> (cos ((90 - e) * pi / 180) \<noteq> 0 \<longrightarrow>
          scene_ref cos e d b2_ds b3_ds b4_ds ! i ! y ! x =
            Num (spec_reflectance (spec_radiance ([b2_ds, b3_ds, b4_ds] ! i ! y ! x) (sr_of i))
                   d (esun_of i) e)))"
proof (intro conjI impI)
  assume a: "r < length b_dn \<and> c < length (b_dn ! r) \<and> b_dn ! r ! c = Num DN"
  then show "b_rad b_dn SR ! r ! c = Num (spec_radiance DN SR)"
    by (simp add: b_rad_nth rad_px_Num)
  from a show "b_ref math_cos (b_rad b_dn SR) ESUN d (radians (sun_zenith_angle e)) ! r ! c =
          np_div (Num (pi * spec_radiance DN SR * d\<^sup>2))
            (ESUN * math_cos ((90 - e) * pi / 180))"
    by (simp only: b_ref_b_rad_nth rad_px_Num ref_px_Num)
  assume den: "ESUN * cos ((90 - e) * pi / 180) \<noteq> 0"
  from a show "b_ref cos (b_rad b_dn SR) ESUN d (radians (sun_zenith_angle e)) ! r ! c =
            Num (spec_reflectance (spec_radiance DN SR) d ESUN e)"
    using ref_px_Num_defined[OF den] by (simp add: b_ref_b_rad_nth rad_px_Num)
next
  let ?dn = "[b2_ds, b3_ds, b4_ds] ! i ! y ! x"
  assume a: "(i, y, x) \<in> coords [b2_ds, b3_ds, b4_ds] \<and> ?dn \<noteq> 0"
  then have px: "scene_ref mc e d b2_ds b3_ds b4_ds ! i ! y ! x =
                 ref_px mc (rad_px (Num ?dn) (sr_of i)) (esun_of i) d
                   (radians (sun_zenith_angle e))" for mc
    by (simp add: scene_ref_pixel where_ne0_def)
  show "scene_ref math_cos e d b2_ds b3_ds b4_ds ! i ! y ! x =
        np_div (Num (pi * spec_radiance ?dn (sr_of i) * d\<^sup>2))
          (esun_of i * math_cos ((90 - e) * pi / 180))"
    unfolding px by (simp only: rad_px_Num ref_px_Num)
  assume c: "cos ((90 - e) * pi / 180) \<noteq> 0"
  from a have "i < 3" by (simp add: coords_iff)
  then have "esun_of i \<noteq> 0" by (rule esun_of_nonzero)
  with c have "esun_of i * cos ((90 - e) * pi / 180) \<noteq> 0" by simp
  then show "scene_ref cos e d b2_ds b3_ds b4_ds ! i ! y ! x =
            Num (spec_reflectance (spec_radiance ?dn (sr_of i)) d (esun_of i) e)"
    unfolding px rad_px_Num by (rule ref_px_Num_defined)
qed

theorem C1_witness:
  "(0::nat) < length [[Num 512]] \<and> (0::nat) < length ([[Num 512]] ! 0)
   \<and> [[Num 512]] ! 0 ! 0 = Num 512
   \<and> (18189 / 100) * cos ((90 - 30) * pi / 180) \<noteq> 0
   \<and> b_rad [[Num 512]] 53 ! 0 ! 0 = Num (53 / 2)
   \<and> b_ref cos (b_rad [[Num 512]] 53) (18189 / 100) 3 (radians (sun_zenith_angle 30)) ! 0 ! 0 =
       Num (pi * (53 / 2) * 9 / ((18189 / 100) * (1 / 2)))
   \<and> (0, 0, 0) \<in> coords [[[512]], [[0]], [[100]]]
   \<and> [[[512]], [[0]], [[100]]] ! 0 ! 0 ! 0 \<noteq> (0::real)
   \<and> cos ((90 - 30) * pi / 180) \<noteq> 0
   \<and> scene_ref cos 30 3 [[512]] [[0]] [[100]] ! 0 ! 0 ! 0 =
       Num (pi * (53 / 2) * 9 / ((18189 / 100) * (1 / 2)))"
proof -
  have c60: "cos ((90 - 30) * pi / 180) = 1 / 2"
    using cos_60 by simp
  show ?thesis
    using C1_radiance_reflectance_formula[where r=0 and c=0 and b_dn="[[Num 512]]" and DN=512
      and SR=53 and ESUN="18189 / 100" and d=3 and e=30 and i=0 and y=0 and x=0
      and ?b2_ds="[[512]]" and ?b3_ds="[[0]]" and ?b4_ds="[[100]]" and math_cos=cos]
    unfolding c60
    by (simp add: coords_iff spec_radiance_def spec_reflectance_def sr_of_def
      b2_sr_def esun_of_def b2_esun_def c60)
qed

text \<open>
  Claim C3: a pixel whose digital number in the source raster is 0, in any of the three
  bands, is \<open>NaN\<close> (missing) after the masking, its radiance is \<open>NaN\<close>, and it is \<open>NaN\<close> in the
  corrected output: it is never a number.
\<close>

theorem C3_nodata_stays_missing:
  "(i, r, c) \<in> coords [b2_ds, b3_ds, b4_ds] \<and> [b2_ds, b3_ds, b4_ds] ! i ! r ! c = 0 \<longrightarrow>
     scene_where [b2_ds, b3_ds, b4_ds] ! i ! r ! c = NaN
     \<and> b_rad (scene_where [b2_ds, b3_ds, b4_ds] ! i) (sr_of i) ! r ! c = NaN
     \<and> scene_ref math_cos e d b2_ds b3_ds b4_ds ! i ! r ! c = NaN
     \<and> (\<forall>v. scene_ref math_cos e d b2_ds b3_ds b4_ds ! i ! r ! c \<noteq> Num v)"
proof (intro impI)
  assume a: "(i, r, c) \<in> coords [b2_ds, b3_ds, b4_ds] \<and> [b2_ds, b3_ds, b4_ds] ! i ! r ! c = 0"
  then have i: "i < length [b2_ds, b3_ds, b4_ds]"
    and r: "r < length ([b2_ds, b3_ds, b4_ds] ! i)"
    and c: "c < length ([b2_ds, b3_ds, b4_ds] ! i ! r)"
    by (simp_all add: coords_iff)
  have w: "scene_where [b2_ds, b3_ds, b4_ds] ! i ! r ! c = NaN"
    using i r c a unfolding scene_where_def by (simp add: where_ne0_def del: list.map)
  have rr: "r < length (scene_where [b2_ds, b3_ds, b4_ds] ! i)"
    and cc: "c < length (scene_where [b2_ds, b3_ds, b4_ds] ! i ! r)"
    using i r c unfolding scene_where_def by (simp_all del: list.map)
  have rad: "b_rad (scene_where [b2_ds, b3_ds, b4_ds] ! i) (sr_of i) ! r ! c = NaN"
    using b_rad_nth[OF rr cc] w by (simp add: rad_px_NaN)
  have "scene_ref math_cos e d b2_ds b3_ds b4_ds ! i ! r ! c = NaN"
    using a by (simp add: scene_ref_pixel where_ne0_def rad_px_NaN ref_px_NaN)
  with w rad show "scene_where [b2_ds, b3_ds, b4_ds] ! i ! r ! c = NaN
     \<and> b_rad (scene_where [b2_ds, b3_ds, b4_ds] ! i) (sr_of i) ! r ! c = NaN
     \<and> scene_ref math_cos e d b2_ds b3_ds b4_ds ! i ! r ! c = NaN
     \<and> (\<forall>v. scene_ref math_cos e d b2_ds b3_ds b4_ds ! i ! r ! c \<noteq> Num v)"
    by simp
qed

theorem C3_witness:
  "(1, 0, 0) \<in> coords [[[512]], [[0]], [[100]]]
   \<and> [[[512]], [[0]], [[100]]] ! 1 ! 0 ! 0 = (0::real)
   \<and> scene_where [[[512]], [[0]], [[100]]] ! 1 ! 0 ! 0 = NaN
   \<and> scene_ref cos 45 1 [[512]] [[0]] [[100]] ! 1 ! 0 ! 0 = NaN"
  using C3_nodata_stays_missing[where i=1 and r=0 and c=0
      and ?b2_ds="[[512]]" and ?b3_ds="[[0]]" and ?b4_ds="[[100]]" and e=45 and d=1
      and math_cos=cos]
  by (simp add: coords_iff)

lemma band_double:
  "b_ref math_cos (b_rad (map (map where_ne0) (double_dn b)) sr) esun d z =
   map (map (\<lambda>x. np_mul x 2)) (b_ref math_cos (b_rad (map (map where_ne0) b) sr) esun d z)"
  by (simp add: b_ref_def b_rad_def double_dn_def o_def ref_px_double)

text \<open>
  Claim C6: with the sun elevation, the distance and the calibration constants fixed,
  doubling every digital number doubles every radiance and every reflectance sample: the
  arrays computed from the doubled raster are the arrays computed from the raster, each
  sample multiplied by 2. For an unmasked digital number the radiance is a number and it
  doubles, and a reflectance that is a number \<open>v\<close> becomes the number \<open>2 * v\<close>.
\<close>

theorem C6_doubling_dn_doubles:
  "b_rad (map (map where_ne0) (double_dn b_ds)) sr =
     map (map (\<lambda>x. np_mul x 2)) (b_rad (map (map where_ne0) b_ds) sr)
   \<and> scene_ref math_cos e d (double_dn b2_ds) (double_dn b3_ds) (double_dn b4_ds) =
     map (map (map (\<lambda>x. np_mul x 2))) (scene_ref math_cos e d b2_ds b3_ds b4_ds)
   \<and> (DN \<noteq> 0 \<longrightarrow>
        rad_px (where_ne0 (2 * DN)) sr = Num (2 * spec_radiance DN sr)
        \<and> rad_px (where_ne0 DN) sr = Num (spec_radiance DN sr)
        \<and> (ref_px math_cos (rad_px (where_ne0 DN) sr) esun d z = Num v \<longrightarrow>
             ref_px math_cos (rad_px (where_ne0 (2 * DN)) sr) esun d z = Num (2 * v)))"
proof (intro conjI impI)
  show "b_rad (map (map where_ne0) (double_dn b_ds)) sr =
     map (map (\<lambda>x. np_mul x 2)) (b_rad (map (map where_ne0) b_ds) sr)"
    by (simp add: b_rad_def double_dn_def o_def rad_px_double)
next
  show "scene_ref math_cos e d (double_dn b2_ds) (double_dn b3_ds) (double_dn b4_ds) =
     map (map (map (\<lambda>x. np_mul x 2))) (scene_ref math_cos e d b2_ds b3_ds b4_ds)"
    by (simp add: scene_ref_def scene_where_def Let_def band_double)
next
  assume "DN \<noteq> 0"
  then show "rad_px (where_ne0 (2 * DN)) sr = Num (2 * spec_radiance DN sr)"
    and "rad_px (where_ne0 DN) sr = Num (spec_radiance DN sr)"
    by (simp_all add: where_ne0_def rad_px_def spec_radiance_def)
next
  assume "ref_px math_cos (rad_px (where_ne0 DN) sr) esun d z = Num v"
  then show "ref_px math_cos (rad_px (where_ne0 (2 * DN)) sr) esun d z = Num (2 * v)"
    by (simp add: ref_px_double)
qed

theorem C6_witness:
  "(512::real) \<noteq> 0
   \<and> rad_px (where_ne0 512) 53 = Num (53 / 2)
   \<and> rad_px (where_ne0 (2 * 512)) 53 = Num 53
   \<and> ref_px cos (rad_px (where_ne0 512) 53) (18189 / 100) 1 0 =
       Num (pi * (53 / 2) / (18189 / 100))
   \<and> ref_px cos (rad_px (where_ne0 (2 * 512)) 53) (18189 / 100) 1 0 =
       Num (2 * (pi * (53 / 2) / (18189 / 100)))"
proof -
  have nz: "(512::real) \<noteq> 0" by simp
  have h: "ref_px cos (rad_px (where_ne0 512) 53) (18189 / 100) 1 0 =
           Num (pi * (53 / 2) / (18189 / 100))"
    by (simp add: where_ne0_def rad_px_def ref_px_def)
  have r1: "rad_px (where_ne0 512) 53 = Num (53 / 2)"
    and r2: "rad_px (where_ne0 (2 * 512)) 53 = Num 53"
    by (simp_all add: where_ne0_def rad_px_def)
  from nz h C6_doubling_dn_doubles[where DN=512 and sr=53 and esun="18189 / 100" and d=1
        and z=0 and v="pi * (53 / 2) / (18189 / 100)" and b_ds="[]" and ?b2_ds="[]"
        and ?b3_ds="[]" and ?b4_ds="[]" and e=0 and math_cos=cos]
  have "ref_px cos (rad_px (where_ne0 (2 * 512)) 53) (18189 / 100) 1 0 =
       Num (2 * (pi * (53 / 2) / (18189 / 100)))"
    by blast
  with nz h r1 r2 show ?thesis by blast
qed

end
